theory Spec2Isabelle
  imports Complex_Main
begin

section \<open>The file manager of the dashboard (FileManager.tsx)\<close>

text \<open>
  A shallow embedding of the file-management component: its pure helpers
  (\<open>getFileType\<close>, \<open>getFolderFromPath\<close>, \<open>formatFileSize\<close>, the search filter) and
  its event handlers (\<open>loadFiles\<close>, \<open>handleFileUpload\<close>, \<open>handleFileDelete\<close>,
  \<open>handleFolderCreate\<close>) as functions on the component state.

  A string is the list of its code units, and a character is a code unit below 256: the
  Latin-1 range of Unicode, ASCII included. On these strings \<open>toLowerCase\<close> and \<open>trim\<close> are
  the functions of the host: \<open>toLowerCase\<close> maps \<open>A\<close>..\<open>Z\<close> and the accented capitals
  \<open>U+00C0\<close>..\<open>U+00DE\<close> (but not the multiplication sign \<open>U+00D7\<close>) to the letter 32
  places further on and leaves every other character alone, and \<open>trim\<close> strips tab, line
  feed, vertical tab, form feed, carriage return, space and no-break space.
\<close>

subsection \<open>String primitives of the host language\<close>

definition toLowerCaseChar :: "char \<Rightarrow> char" where
  "toLowerCaseChar c =
     (let n = of_char c :: nat
      in if (65 \<le> n \<and> n \<le> 90) \<or> (192 \<le> n \<and> n \<le> 222 \<and> n \<noteq> 215)
         then char_of (n + 32)
         else c)"

definition toLowerCase :: "string \<Rightarrow> string" where
  "toLowerCase s = map toLowerCaseChar s"

text \<open>\<open>s.split(sep)\<close> for a one-character separator: never the empty array.\<close>

fun split :: "char \<Rightarrow> string \<Rightarrow> string list" where
  "split sep [] = [[]]"
| "split sep (c # cs) =
     (if c = sep then [] # split sep cs
      else (case split sep cs of
              [] \<Rightarrow> [[c]]
            | p # ps \<Rightarrow> (c # p) # ps))"

text \<open>\<open>xs.pop()\<close> as an expression: the last element, \<open>undefined\<close> on the empty array.\<close>

definition pop :: "'a list \<Rightarrow> 'a option" where
  "pop xs = (if xs = [] then None else Some (last xs))"

fun startsWith :: "string \<Rightarrow> string \<Rightarrow> bool" where
  "startsWith s [] = True"
| "startsWith [] (q # qs) = False"
| "startsWith (c # cs) (q # qs) = (c = q \<and> startsWith cs qs)"

text \<open>\<open>s.includes(q)\<close>: \<open>q\<close> occurs in \<open>s\<close> at some position.\<close>

fun includesStr :: "string \<Rightarrow> string \<Rightarrow> bool" where
  "includesStr [] q = (q = [])"
| "includesStr (c # cs) q = (startsWith (c # cs) q \<or> includesStr cs q)"

definition isWhiteSpace :: "char \<Rightarrow> bool" where
  "isWhiteSpace c =
     (c \<in> set [CHR 0x09, CHR 0x0A, CHR 0x0B, CHR 0x0C, CHR 0x0D, CHR '' '', CHR 0xA0])"

definition trim :: "string \<Rightarrow> string" where
  "trim s = rev (dropWhile isWhiteSpace (rev (dropWhile isWhiteSpace s)))"

text \<open>A natural number in decimal, as string concatenation and template literals print it.\<close>

definition digit :: "nat \<Rightarrow> char" where
  "digit d = ''0123456789'' ! d"

fun showNat :: "nat \<Rightarrow> string" where
  "showNat n = (if n < 10 then [digit n] else showNat (n div 10) @ [digit (n mod 10)])"

declare showNat.simps [simp del]

subsection \<open>Classification and folder of a file name\<close>

definition getFileType :: "string \<Rightarrow> string" where
  "getFileType filename =
     (let ext = map_option toLowerCase (pop (split CHR ''.'' filename));
          e = (case ext of None \<Rightarrow> '''' | Some x \<Rightarrow> x)
      in if e \<in> set [''pdf'', ''doc'', ''docx''] then ''document''
         else if e \<in> set [''jpg'', ''jpeg'', ''png'', ''gif'', ''svg''] then ''image''
         else if e \<in> set [''mp4'', ''avi'', ''mov'', ''wmv''] then ''video''
         else if e \<in> set [''mp3'', ''wav'', ''flac''] then ''audio''
         else if e \<in> set [''zip'', ''rar'', ''7z''] then ''archive''
         else if e \<in> set [''js'', ''ts'', ''jsx'', ''tsx'', ''html'', ''css''] then ''code''
         else ''other'')"

definition getFolderFromPath :: "string \<Rightarrow> string" where
  "getFolderFromPath path =
     (let parts = split CHR ''/'' path
      in if length parts > 1 then hd parts else ''Root'')"

subsection \<open>Size formatting\<close>

text \<open>
  A byte count is the size of a file, a non-negative integer.
  \<open>Math.floor(Math.log(bytes) / Math.log(1024))\<close> for a positive integer byte count: the
  floating-point quotient of logarithms is modelled by the exact integer logarithm. The two
  agree on the byte counts up to \<open>1024 ^ 4\<close>: the quotient is exact at a power of 1024,
  and elsewhere its rounding error is far smaller than its distance to the next integer.
  Further up they part (at \<open>1024 ^ 5 - 1\<close> the quotient rounds to 5), and nothing below
  is stated of that range.
\<close>

fun floorLog1024 :: "nat \<Rightarrow> nat" where
  "floorLog1024 n = (if n < 1024 then 0 else Suc (floorLog1024 (n div 1024)))"

declare floorLog1024.simps [simp del]

text \<open>
  \<open>(bytes / Math.pow(k, i)).toFixed(2)\<close>, as the number of hundredths it prints: division by
  a power of two is exact, and \<open>toFixed\<close> takes the nearest hundredth, the larger one at a
  tie.
\<close>

definition toFixed2 :: "nat \<Rightarrow> nat \<Rightarrow> nat" where
  "toFixed2 bytes i = (200 * bytes + 1024 ^ i) div (2 * 1024 ^ i)"

text \<open>
  \<open>parseFloat(...) + ' '\<close>: the number of hundredths printed in the shortest form, without
  trailing zeros of the fraction.
\<close>

definition showHundredths :: "nat \<Rightarrow> string" where
  "showHundredths h =
     showNat (h div 100) @
     (if h mod 100 = 0 then ''''
      else if h mod 10 = 0 then CHR ''.'' # [digit (h mod 100 div 10)]
      else CHR ''.'' # [digit (h mod 100 div 10), digit (h mod 10)])"

definition sizes :: "string list" where
  "sizes = [''Bytes'', ''KB'', ''MB'', ''GB'']"

text \<open>\<open>sizes[i]\<close> in a string concatenation: \<open>undefined\<close> past the end of the table.\<close>

definition sizesAt :: "nat \<Rightarrow> string" where
  "sizesAt i = (if i < length sizes then sizes ! i else ''undefined'')"

definition formatFileSize :: "nat \<Rightarrow> string" where
  "formatFileSize bytes =
     (if bytes = 0 then ''0 Bytes''
      else let i = floorLog1024 bytes
           in showHundredths (toFixed2 bytes i) @ '' '' @ sizesAt i)"

subsection \<open>Component state and the services it consumes\<close>

text \<open>The browser's \<open>File\<close>: the fields the component reads.\<close>

record File =
  file_name :: string
  file_size :: nat

text \<open>
  \<open>FileItem\<close>. The fields \<open>id\<close>, \<open>size\<close> and \<open>type\<close> carry a suffix, the plain names
  being constants of the logic. Optional fields are options; a date is a clock reading.
\<close>

record FileItem =
  id_item :: string
  name :: string
  size_item :: nat
  type_item :: string
  uploadedAt :: int
  uploadedBy :: string
  folder :: "string option"
  tags :: "string list"
  url :: "string option"
  path :: "string option"

datatype variant = Default | Destructive

text \<open>
  What a handler does to the outside, in the order it does it: a toast (title,
  description, variant), a call of the storage client, a progress update, a line on the
  console, a call of one of the optional callbacks of the properties. A progress value is
  the exact quotient that the floating-point expression of the source rounds.
\<close>

datatype Effect =
    Toast string string variant
  | StorageUpload string
  | StorageRemove "string list"
  | StorageList
  | SetUploadProgress rat
  | ConsoleError
  | OnFileUpload "File list"
  | OnFileDelete string
  | OnFolderCreate string

record State =
  files :: "FileItem list"
  searchQuery :: string
  selectedFolder :: string
  showUploadArea :: bool
  isUploading :: bool
  uploadProgress :: rat
  showFolderDialog :: bool
  newFolderName :: string
  effects :: "Effect list"

text \<open>
  The answers of the storage client. \<open>upload\<close> and \<open>remove\<close> resolve to a pair of data and
  error, or the call throws; \<open>list\<close> likewise. The data of an upload is the key under which
  the file was stored, the error of an upload carries a message.
\<close>

datatype upload_response = UploadData string | UploadError string | UploadThrows

datatype remove_response = RemoveOk | RemoveError | RemoveThrows

record StorageObject =
  object_id :: "string option"
  object_name :: string
  metadata_size :: "nat option"
  updated_at :: "int option"

datatype list_response = ListData "StorageObject list" | ListError | ListThrows

text \<open>
  The environment of a handler: the answer of the storage client to the \<open>i\<close>-th upload of
  a batch, to a removal and to the listing, the public URL of a key, the e-mail address of
  the signed-in user and the clock.
\<close>

record Env =
  upload_reply :: "nat \<Rightarrow> upload_response"
  remove_reply :: "string list \<Rightarrow> remove_response"
  list_reply :: list_response
  publicUrl :: "string \<Rightarrow> string"
  userEmail :: "string option"
  now :: int

text \<open>
  \<open>const folders = [...]\<close> stands in the body of the component and is no state of it:
  every render builds the array anew from the six names, and the folder selector of that
  render offers \<open>all\<close> and the names of the array.
\<close>

definition folders :: "string list" where
  "folders = [''Documents'', ''Design'', ''Images'', ''Videos'', ''Code'', ''Audio'']"

definition selectorItems :: "string list" where
  "selectorItems = ''all'' # folders"

definition initial_state :: State where
  "initial_state =
     \<lparr>files = [], searchQuery = '''', selectedFolder = ''all'',
      showUploadArea = False, isUploading = False, uploadProgress = 0,
      showFolderDialog = False, newFolderName = '''', effects = []\<rparr>"

definition emit :: "Effect list \<Rightarrow> State \<Rightarrow> State" where
  "emit es s = s\<lparr>effects := effects s @ es\<rparr>"

definition toast :: "string \<Rightarrow> string \<Rightarrow> variant \<Rightarrow> State \<Rightarrow> State" where
  "toast title description v s = emit [Toast title description v] s"

definition setUploadProgress :: "rat \<Rightarrow> State \<Rightarrow> State" where
  "setUploadProgress v s = emit [SetUploadProgress v] (s\<lparr>uploadProgress := v\<rparr>)"

definition setSelectedFolder :: "string \<Rightarrow> State \<Rightarrow> State" where
  "setSelectedFolder v s = s\<lparr>selectedFolder := v\<rparr>"

definition setNewFolderName :: "string \<Rightarrow> State \<Rightarrow> State" where
  "setNewFolderName v s = s\<lparr>newFolderName := v\<rparr>"

definition setSearchQuery :: "string \<Rightarrow> State \<Rightarrow> State" where
  "setSearchQuery v s = s\<lparr>searchQuery := v\<rparr>"

text \<open>\<open>a || b\<close> on strings that may be missing: the empty string counts as missing.\<close>

definition orElse :: "string option \<Rightarrow> string \<Rightarrow> string" where
  "orElse a b = (case a of None \<Rightarrow> b | Some x \<Rightarrow> if x = '''' then b else x)"

definition getFileUrl :: "Env \<Rightarrow> string \<Rightarrow> string" where
  "getFileUrl env p = publicUrl env p"

subsection \<open>Listing loader\<close>

definition loadedItem :: "Env \<Rightarrow> StorageObject \<Rightarrow> FileItem" where
  "loadedItem env file =
     \<lparr>id_item = orElse (object_id file) (object_name file),
      name = object_name file,
      size_item = (case metadata_size file of None \<Rightarrow> 0 | Some n \<Rightarrow> n),
      type_item = getFileType (object_name file),
      uploadedAt = (case updated_at file of None \<Rightarrow> now env | Some t \<Rightarrow> t),
      uploadedBy = orElse (userEmail env) ''Unknown'',
      folder = Some (getFolderFromPath (object_name file)),
      tags = [],
      url = Some (getFileUrl env (object_name file)),
      path = Some (object_name file)\<rparr>"

definition loadFiles :: "Env \<Rightarrow> State \<Rightarrow> State" where
  "loadFiles env s =
     (let s1 = emit [StorageList] s
      in case list_reply env of
           ListThrows \<Rightarrow> emit [ConsoleError] s1
         | ListError \<Rightarrow> emit [ConsoleError] s1
         | ListData data \<Rightarrow> s1\<lparr>files := map (loadedItem env) data\<rparr>)"

subsection \<open>Upload\<close>

text \<open>The record of a file that the storage client stored under the key \<open>p\<close>.\<close>

definition uploadedItem :: "Env \<Rightarrow> string \<Rightarrow> File \<Rightarrow> string \<Rightarrow> FileItem" where
  "uploadedItem env sel file p =
     \<lparr>id_item = p,
      name = file_name file,
      size_item = file_size file,
      type_item = getFileType (file_name file),
      uploadedAt = now env,
      uploadedBy = orElse (userEmail env) ''Unknown'',
      folder = Some (if sel = ''all'' then ''Root'' else sel),
      tags = [],
      url = Some (getFileUrl env p),
      path = Some p\<rparr>"

text \<open>The destination key of a file under the selected folder.\<close>

definition destination :: "string \<Rightarrow> File \<Rightarrow> string" where
  "destination sel file = (if sel = ''all'' then '''' else sel @ ''/'') @ file_name file"

text \<open>
  The loop over the selected files, from index \<open>i\<close> on, with the rest of the files still
  to process. It returns the records accumulated in \<open>uploadedFiles\<close>, or \<open>None\<close> when the
  storage client threw, with the state at that moment.
\<close>

fun uploadLoop ::
  "Env \<Rightarrow> nat \<Rightarrow> nat \<Rightarrow> File list \<Rightarrow> FileItem list \<Rightarrow> State \<Rightarrow> FileItem list option \<times> State"
where
  "uploadLoop env len i [] uploadedFiles s = (Some uploadedFiles, s)"
| "uploadLoop env len i (file # rest) uploadedFiles s =
     (let fileName = destination (selectedFolder s) file;
          s1 = emit [StorageUpload fileName] s
      in case upload_reply env i of
           UploadThrows \<Rightarrow> (None, s1)
         | UploadError message \<Rightarrow>
             uploadLoop env len (i + 1) rest uploadedFiles
               (toast ''Upload Failed''
                  (''Failed to upload '' @ file_name file @ '': '' @ message) Destructive
                  (emit [ConsoleError] s1))
         | UploadData p \<Rightarrow>
             uploadLoop env len (i + 1) rest
               (uploadedFiles @ [uploadedItem env (selectedFolder s) file p])
               (setUploadProgress (of_nat (i + 1) / of_nat len * 100) s1))"

definition handleFileUpload :: "Env \<Rightarrow> File list option \<Rightarrow> State \<Rightarrow> State" where
  "handleFileUpload env selectedFiles s =
     (case selectedFiles of
        None \<Rightarrow> s
      | Some fs \<Rightarrow>
          if length fs = 0 then s
          else
            let s1 = setUploadProgress 0 (s\<lparr>isUploading := True\<rparr>);
                (r, s2) = uploadLoop env (length fs) 0 fs [] s1;
                s3 = (case r of
                        Some uploadedFiles \<Rightarrow>
                          (toast ''Upload Successful''
                             (''Successfully uploaded '' @ showNat (length uploadedFiles) @ '' file(s)'')
                             Default
                             (emit [OnFileUpload fs] (s2\<lparr>files := uploadedFiles @ files s2\<rparr>)))
                          \<lparr>showUploadArea := False\<rparr>
                      | None \<Rightarrow>
                          toast ''Upload Failed'' ''An error occurred during upload'' Destructive
                            (emit [ConsoleError] s2))
            in setUploadProgress 0 (s3\<lparr>isUploading := False\<rparr>))"

subsection \<open>Delete\<close>

definition handleFileDelete :: "Env \<Rightarrow> string \<Rightarrow> State \<Rightarrow> State" where
  "handleFileDelete env fileId s =
     (case find (\<lambda>f. id_item f = fileId) (files s) of
        None \<Rightarrow> s
      | Some file \<Rightarrow>
          (let keys = [orElse (path file) (name file)];
               s1 = emit [StorageRemove keys] s
           in case remove_reply env keys of
               RemoveThrows \<Rightarrow>
                 toast ''Delete Failed'' ''An error occurred while deleting the file'' Destructive
                   (emit [ConsoleError] s1)
             | RemoveError \<Rightarrow>
                 toast ''Delete Failed'' (''Failed to delete '' @ name file) Destructive
                   (emit [ConsoleError] s1)
             | RemoveOk \<Rightarrow>
                 toast ''File Deleted'' (name file @ '' has been deleted'') Default
                   (emit [OnFileDelete fileId]
                      (s1\<lparr>files := filter (\<lambda>f. id_item f \<noteq> fileId) (files s1)\<rparr>))))"

subsection \<open>Folder creation\<close>

text \<open>
  The handler runs in the scope of one render and works on the array of that render. It
  returns that array as the call leaves it, and the state, from which the next render
  builds its own array: an accepted name is pushed onto an array that the component drops
  at the render which the state updates of the handler bring about.
\<close>

definition handleFolderCreate :: "State \<Rightarrow> string list \<times> State" where
  "handleFolderCreate s =
     (if trim (newFolderName s) = '''' then
        (folders, toast ''Error'' ''Please enter a folder name'' Destructive s)
      else if newFolderName s \<in> set folders then
        (folders, toast ''Error'' ''Folder already exists'' Destructive s)
      else
        (folders @ [newFolderName s],
         (toast ''Folder Created''
            (''Folder '' @ [CHR 0x22] @ newFolderName s @ [CHR 0x22] @ '' has been created'') Default
            (emit [OnFolderCreate (newFolderName s)] s))
         \<lparr>newFolderName := '''', showFolderDialog := False\<rparr>))"

subsection \<open>Search and filter\<close>

definition matchesSearch :: "string \<Rightarrow> FileItem \<Rightarrow> bool" where
  "matchesSearch q file =
     (includesStr (toLowerCase (name file)) (toLowerCase q) \<or>
      list_ex (\<lambda>tag. includesStr (toLowerCase tag) (toLowerCase q)) (tags file))"



subsection \<open>Reading the log of effects\<close>

text \<open>The effects a handler added, going from the state \<open>s\<close> to the state \<open>s'\<close>.\<close>

definition issued :: "State \<Rightarrow> State \<Rightarrow> Effect list" where
  "issued s s' = drop (length (effects s)) (effects s')"

fun isToast :: "Effect \<Rightarrow> bool" where
  "isToast (Toast t d v) = True"
| "isToast e = False"

fun isStorageCall :: "Effect \<Rightarrow> bool" where
  "isStorageCall (StorageUpload k) = True"
| "isStorageCall (StorageRemove ks) = True"
| "isStorageCall StorageList = True"
| "isStorageCall e = False"

fun isProgress :: "Effect \<Rightarrow> bool" where
  "isProgress (SetUploadProgress v) = True"
| "isProgress e = False"

definition toasts :: "Effect list \<Rightarrow> Effect list" where
  "toasts es = filter isToast es"

definition storageCalls :: "Effect list \<Rightarrow> Effect list" where
  "storageCalls es = filter isStorageCall es"

definition progressReports :: "Effect list \<Rightarrow> Effect list" where
  "progressReports es = filter isProgress es"

fun isData :: "upload_response \<Rightarrow> bool" where
  "isData (UploadData p) = True"
| "isData r = False"

fun isError :: "upload_response \<Rightarrow> bool" where
  "isError (UploadError m) = True"
| "isError r = False"

fun dataPath :: "upload_response \<Rightarrow> string" where
  "dataPath (UploadData p) = p"
| "dataPath r = []"

fun errorMessage :: "upload_response \<Rightarrow> string" where
  "errorMessage (UploadError m) = m"
| "errorMessage r = []"

text \<open>
  The files of a batch with their positions, split by the answer of the storage client:
  those it stored and those it rejected with an error.
\<close>

definition storedFiles :: "Env \<Rightarrow> File list \<Rightarrow> (nat \<times> File) list" where
  "storedFiles env fs = filter (\<lambda>(k, f). isData (upload_reply env k)) (enumerate 0 fs)"

definition rejectedFiles :: "Env \<Rightarrow> File list \<Rightarrow> (nat \<times> File) list" where
  "rejectedFiles env fs = filter (\<lambda>(k, f). isError (upload_reply env k)) (enumerate 0 fs)"

text \<open>The effects of the loop of \<open>handleFileUpload\<close>, on their own.\<close>

fun loopEffects :: "Env \<Rightarrow> nat \<Rightarrow> string \<Rightarrow> nat \<Rightarrow> File list \<Rightarrow> Effect list" where
  "loopEffects env len sel i [] = []"
| "loopEffects env len sel i (file # rest) =
     StorageUpload (destination sel file) #
     (case upload_reply env i of
        UploadThrows \<Rightarrow> []
      | UploadError message \<Rightarrow>
          ConsoleError #
          Toast ''Upload Failed'' (''Failed to upload '' @ file_name file @ '': '' @ message) Destructive #
          loopEffects env len sel (i + 1) rest
      | UploadData p \<Rightarrow>
          SetUploadProgress (of_nat (i + 1) / of_nat len * 100) #
          loopEffects env len sel (i + 1) rest)"





text \<open>
  The folder of a path as the specification words it: the first segment of a path that
  contains the separator, and \<open>Root\<close> for a path without one. A record has its folder
  derived when the folder it holds is the folder of its path.
\<close>

definition pathFolder :: "string \<Rightarrow> string" where
  "pathFolder p =
     (if CHR ''/'' \<in> set p then takeWhile (\<lambda>c. c \<noteq> CHR ''/'') p else ''Root'')"

definition folderDerived :: "FileItem \<Rightarrow> bool" where
  "folderDerived file =
     (case path file of None \<Rightarrow> False | Some p \<Rightarrow> folder file = Some (pathFolder p))"

text \<open>
  The states the component reaches from its first render by the events it handles. The
  folder selector sets the selection to one of its items. The files of an upload are those
  of a file input, whose names are base names without a separator. The storage client
  stores a file under the key it is given and answers that key.
\<close>

inductive reachable :: "State \<Rightarrow> bool" where
  mounted: "reachable initial_state"
| loaded: "reachable s \<Longrightarrow> reachable (loadFiles env s)"
| uploaded:
    "reachable s \<Longrightarrow>
     list_all (\<lambda>f. CHR ''/'' \<notin> set (file_name f)) fs \<Longrightarrow>
     (\<forall>k<length fs. \<forall>q. upload_reply env k = UploadData q \<longrightarrow>
        q = destination (selectedFolder s) (fs ! k)) \<Longrightarrow>
     reachable (handleFileUpload env (Some fs) s)"
| deleted: "reachable s \<Longrightarrow> reachable (handleFileDelete env fileId s)"
| folderSubmitted: "reachable s \<Longrightarrow> reachable (snd (handleFolderCreate s))"
| folderSelected: "reachable s \<Longrightarrow> v \<in> set selectorItems \<Longrightarrow> reachable (setSelectedFolder v s)"
| queryTyped: "reachable s \<Longrightarrow> reachable (setSearchQuery v s)"
| folderNameTyped: "reachable s \<Longrightarrow> reachable (setNewFolderName v s)"

subsection \<open>Sample data\<close>

text \<open>
  A storage client that answers the uploads of a batch by \<open>up\<close> and every removal by
  \<open>rm\<close>, two records as the component holds them, a listing of the two, and two files
  to upload.
\<close>

definition storageEnv :: "(nat \<Rightarrow> upload_response) \<Rightarrow> remove_response \<Rightarrow> Env" where
  "storageEnv up rm =
     \<lparr>upload_reply = up, remove_reply = (\<lambda>ks. rm), list_reply = ListData [],
      publicUrl = (\<lambda>p. ''https://files.example/'' @ p),
      userEmail = Some ''manager@example.com'', now = 0\<rparr>"

definition reportItem :: FileItem where
  "reportItem =
     \<lparr>id_item = ''Documents/report.pdf'', name = ''report.pdf'', size_item = 2048,
      type_item = ''document'', uploadedAt = 0, uploadedBy = ''manager@example.com'',
      folder = Some ''Documents'', tags = [],
      url = Some ''https://files.example/Documents/report.pdf'',
      path = Some ''Documents/report.pdf''\<rparr>"

definition logoItem :: FileItem where
  "logoItem =
     \<lparr>id_item = ''Design/logo.png'', name = ''logo.png'', size_item = 512,
      type_item = ''image'', uploadedAt = 0, uploadedBy = ''manager@example.com'',
      folder = Some ''Design'', tags = [''Reports''],
      url = Some ''https://files.example/Design/logo.png'',
      path = Some ''Design/logo.png''\<rparr>"

definition listingState :: State where
  "listingState = initial_state\<lparr>files := [reportItem, logoItem]\<rparr>"

definition reportFile :: File where
  "reportFile = \<lparr>file_name = ''report.pdf'', file_size = 2048\<rparr>"

definition notesFile :: File where
  "notesFile = \<lparr>file_name = ''notes.txt'', file_size = 10\<rparr>"

text \<open>A storage client that stores the first file of a batch and rejects the others.\<close>

definition firstStored :: "nat \<Rightarrow> upload_response" where
  "firstStored i =
     (if i = 0 then UploadData ''report.pdf'' else UploadError ''The resource already exists'')"

text \<open>A storage client that rejects every file of a batch.\<close>

definition noneStored :: "nat \<Rightarrow> upload_response" where
  "noneStored i = UploadError ''The resource already exists''"

text \<open>A storage client that stores every file under \<open>Documents/report.pdf\<close>.\<close>

definition documentsStored :: "nat \<Rightarrow> upload_response" where
  "documentsStored i = UploadData ''Documents/report.pdf''"

text \<open>A storage client that stores the first file of a batch and throws at the second.\<close>

definition secondThrows :: "nat \<Rightarrow> upload_response" where
  "secondThrows i = (if i = 0 then UploadData ''report.pdf'' else UploadThrows)"

definition listedObject :: StorageObject where
  "listedObject =
     \<lparr>object_id = Some ''5f0c'', object_name = ''report.pdf'', metadata_size = Some 2048,
      updated_at = Some 1\<rparr>"

section \<open>Properties\<close>

subsection \<open>Simplification rules of the state\<close>

lemma emit_fields [simp]:
  "files (emit es s) = files s"
  "searchQuery (emit es s) = searchQuery s"
  "selectedFolder (emit es s) = selectedFolder s"
  "newFolderName (emit es s) = newFolderName s"
  "uploadProgress (emit es s) = uploadProgress s"
  "effects (emit es s) = effects s @ es"
  by (simp_all add: emit_def)

lemma toast_fields [simp]:
  "files (toast t d v s) = files s"
  "searchQuery (toast t d v s) = searchQuery s"
  "selectedFolder (toast t d v s) = selectedFolder s"
  "newFolderName (toast t d v s) = newFolderName s"
  "effects (toast t d v s) = effects s @ [Toast t d v]"
  by (simp_all add: toast_def)

lemma setUploadProgress_fields [simp]:
  "files (setUploadProgress x s) = files s"
  "searchQuery (setUploadProgress x s) = searchQuery s"
  "selectedFolder (setUploadProgress x s) = selectedFolder s"
  "newFolderName (setUploadProgress x s) = newFolderName s"
  "uploadProgress (setUploadProgress x s) = x"
  "effects (setUploadProgress x s) = effects s @ [SetUploadProgress x]"
  by (simp_all add: setUploadProgress_def)

lemma issued_append [simp]: "effects s' = effects s @ es \<Longrightarrow> issued s s' = es"
  by (simp add: issued_def)

lemma issued_same [simp]: "issued s s = []"
  by (simp add: issued_def)

lemma toasts_simps [simp]:
  "toasts [] = []"
  "toasts (e # es) = (if isToast e then e # toasts es else toasts es)"
  "toasts (es @ es') = toasts es @ toasts es'"
  by (simp_all add: toasts_def)

lemma storageCalls_simps [simp]:
  "storageCalls [] = []"
  "storageCalls (e # es) = (if isStorageCall e then e # storageCalls es else storageCalls es)"
  "storageCalls (es @ es') = storageCalls es @ storageCalls es'"
  by (simp_all add: storageCalls_def)

lemma progressReports_simps [simp]:
  "progressReports [] = []"
  "progressReports (e # es) = (if isProgress e then e # progressReports es else progressReports es)"
  "progressReports (es @ es') = progressReports es @ progressReports es'"
  by (simp_all add: progressReports_def)

subsection \<open>Strings\<close>

lemma trim_empty_iff: "trim s = [] \<longleftrightarrow> (\<forall>c \<in> set s. isWhiteSpace c)"
proof
  assume "trim s = []"
  then have all: "\<forall>c \<in> set (dropWhile isWhiteSpace s). isWhiteSpace c"
    by (simp add: trim_def)
  have "dropWhile isWhiteSpace s = []"
  proof (rule ccontr)
    assume ne: "dropWhile isWhiteSpace s \<noteq> []"
    then have "\<not> isWhiteSpace (hd (dropWhile isWhiteSpace s))"
      by (rule hd_dropWhile)
    moreover from ne have "hd (dropWhile isWhiteSpace s) \<in> set (dropWhile isWhiteSpace s)"
      by (rule hd_in_set)
    ultimately show False using all by blast
  qed
  then show "\<forall>c \<in> set s. isWhiteSpace c"
    by simp
next
  assume "\<forall>c \<in> set s. isWhiteSpace c"
  then show "trim s = []"
    by (auto simp add: trim_def dest: set_dropWhileD)
qed










text \<open>Evaluation of the character primitives on literals.\<close>

lemmas char_eval = toLowerCase_def toLowerCaseChar_def char_of_def bit_Suc_0_iff

subsection \<open>Classification\<close>

lemma split_not_Nil: "split sep p \<noteq> []"
  by (induction p) (auto split: list.splits)

lemma split_no_separator: "sep \<notin> set p \<Longrightarrow> split sep p = [p]"
  by (induction p) auto

text \<open>
  The category is a function of the lowercased text after the last dot, and \<open>other\<close> when
  that text is in none of the tables; for a name without a dot that text is the whole name.
\<close>

lemma getFileType_unknown_extension:
  "toLowerCase (last (split CHR ''.'' filename)) \<notin>
     set [''pdf'', ''doc'', ''docx'', ''jpg'', ''jpeg'', ''png'', ''gif'', ''svg'',
          ''mp4'', ''avi'', ''mov'', ''wmv'', ''mp3'', ''wav'', ''flac'', ''zip'', ''rar'', ''7z'',
          ''js'', ''ts'', ''jsx'', ''tsx'', ''html'', ''css''] \<Longrightarrow>
   getFileType filename = ''other''"
  by (simp add: getFileType_def pop_def split_not_Nil Let_def)

lemma getFileType_same_extension:
  "toLowerCase (last (split CHR ''.'' a)) = toLowerCase (last (split CHR ''.'' b)) \<Longrightarrow>
   getFileType a = getFileType b"
  by (simp add: getFileType_def pop_def split_not_Nil Let_def)

lemma extension_of_dotless_name:
  "CHR ''.'' \<notin> set filename \<Longrightarrow> last (split CHR ''.'' filename) = filename"
  by (simp add: split_no_separator)

lemma getFileType_range:
  "getFileType filename \<in>
     set [''document'', ''image'', ''video'', ''audio'', ''archive'', ''code'', ''other'']"
  by (simp add: getFileType_def Let_def)

text \<open>
  Claim C2. The category of a file name is a function of its lowercased extension, and a
  name with an unknown or missing extension is classified \<open>other\<close>. The code takes the
  text after the last dot as the extension and, for a name without a dot, the whole name:
  the file named \<open>pdf\<close> has no extension and is classified \<open>document\<close>.
\<close>

theorem getFileType_dotless_name:
  "CHR ''.'' \<notin> set ''pdf'' \<and> getFileType ''pdf'' = ''document''"
  by (simp add: getFileType_def pop_def char_eval)

subsection \<open>Search and filter\<close>



text \<open>
  The view follows the letters of the query and not only its length: the accented capital
  \<open>U+00C9\<close> is found by its small form \<open>U+00E9\<close>, and not by the letter \<open>e\<close>.
\<close>

lemma matchesSearch_accented:
  "matchesSearch [CHR 0xE9] (reportItem\<lparr>name := [CHR 0xC9, CHR ''.'', CHR ''p'']\<rparr>) \<and>
   \<not> matchesSearch ''e'' (reportItem\<lparr>name := [CHR 0xC9, CHR ''.'', CHR ''p'']\<rparr>)"
  by (simp add: matchesSearch_def reportItem_def char_eval)

subsection \<open>Delete\<close>

lemma find_distinct_filter:
  "distinct (map id_item xs) \<Longrightarrow> find (\<lambda>f. id_item f = i) xs = Some file \<Longrightarrow>
   filter (\<lambda>f. id_item f \<noteq> i) xs = remove1 file xs"
proof (induction xs)
  case Nil
  then show ?case by simp
next
  case (Cons x xs)
  show ?case
  proof (cases "id_item x = i")
    case True
    with Cons.prems have "file = x" by simp
    moreover from True Cons.prems have "\<forall>f \<in> set xs. id_item f \<noteq> i"
      by (auto simp add: image_iff)
    then have "filter (\<lambda>f. id_item f \<noteq> i) xs = xs" by (simp add: filter_id_conv)
    ultimately show ?thesis using True by simp
  next
    case False
    with Cons.prems have "find (\<lambda>f. id_item f = i) xs = Some file" by simp
    moreover from Cons.prems have "distinct (map id_item xs)" by simp
    ultimately have "filter (\<lambda>f. id_item f \<noteq> i) xs = remove1 file xs" by (rule Cons.IH[rotated])
    moreover from False \<open>find (\<lambda>f. id_item f = i) xs = Some file\<close> have "x \<noteq> file"
      by (auto simp add: find_Some_iff)
    ultimately show ?thesis using False by simp
  qed
qed

lemma find_present:
  "file \<in> set xs \<Longrightarrow> distinct (map id_item xs) \<Longrightarrow> find (\<lambda>f. id_item f = id_item file) xs = Some file"
  by (induction xs) auto

text \<open>
  Claim C5. Deleting an identity that no record of the listing has changes nothing: the
  state after the handler is the state before it, so the listing is the same, no
  notification is shown and the storage client is not called.
\<close>

theorem handleFileDelete_unknown_id:
  "\<forall>f \<in> set (files s). id_item f \<noteq> fileId \<Longrightarrow>
   handleFileDelete env fileId s = s \<and>
   files (handleFileDelete env fileId s) = files s \<and>
   issued s (handleFileDelete env fileId s) = []"
  by (simp add: handleFileDelete_def find_None_iff[THEN iffD2])

theorem handleFileDelete_unknown_id_witness:
  "handleFileDelete (storageEnv (\<lambda>i. UploadThrows) RemoveOk) ''missing.txt'' listingState =
     listingState"
  using handleFileDelete_unknown_id
    [of listingState "''missing.txt''" "storageEnv (\<lambda>i. UploadThrows) RemoveOk"]
  by (simp add: listingState_def reportItem_def logoItem_def)

text \<open>
  Claim C6. For the record \<open>file\<close> that the listing holds under the identity (the first
  one with it, the only one when identities are unique), the handler calls the storage
  client once, to remove the path of the record, or its name when the path is missing or
  empty. When the call does not succeed the listing is unchanged and one failure
  notification is shown; when it succeeds the records with that identity leave the
  listing (exactly the record \<open>file\<close> when identities are unique) and one success
  notification is shown.
\<close>

theorem handleFileDelete_present:
  assumes "find (\<lambda>f. id_item f = fileId) (files s) = Some file"
  shows "storageCalls (issued s (handleFileDelete env fileId s)) =
           [StorageRemove [case path file of None \<Rightarrow> name file
                           | Some p \<Rightarrow> if p = [] then name file else p]] \<and>
         (remove_reply env [orElse (path file) (name file)] \<noteq> RemoveOk \<longrightarrow>
            files (handleFileDelete env fileId s) = files s \<and>
            (\<exists>d. toasts (issued s (handleFileDelete env fileId s)) =
                   [Toast ''Delete Failed'' d Destructive])) \<and>
         (remove_reply env [orElse (path file) (name file)] = RemoveOk \<longrightarrow>
            files (handleFileDelete env fileId s) = filter (\<lambda>f. id_item f \<noteq> fileId) (files s) \<and>
            toasts (issued s (handleFileDelete env fileId s)) =
              [Toast ''File Deleted'' (name file @ '' has been deleted'') Default] \<and>
            (distinct (map id_item (files s)) \<longrightarrow>
               files (handleFileDelete env fileId s) = remove1 file (files s)))"
proof (cases "remove_reply env [orElse (path file) (name file)]")
  case RemoveOk
  with assms show ?thesis
    by (simp add: handleFileDelete_def Let_def find_distinct_filter orElse_def split: option.splits)
next
  case RemoveError
  with assms show ?thesis
    by (simp add: handleFileDelete_def Let_def orElse_def split: option.splits)
next
  case RemoveThrows
  with assms show ?thesis
    by (simp add: handleFileDelete_def Let_def orElse_def split: option.splits)
qed

theorem handleFileDelete_present_witness:
  "storageCalls (issued listingState
      (handleFileDelete (storageEnv (\<lambda>i. UploadThrows) RemoveOk) ''Design/logo.png'' listingState)) =
     [StorageRemove [''Design/logo.png'']] \<and>
   files (handleFileDelete (storageEnv (\<lambda>i. UploadThrows) RemoveOk) ''Design/logo.png'' listingState) =
     [reportItem] \<and>
   files (handleFileDelete (storageEnv (\<lambda>i. UploadThrows) RemoveError) ''Design/logo.png'' listingState) =
     [reportItem, logoItem]"
  using handleFileDelete_present
    [of "''Design/logo.png''" listingState logoItem "storageEnv (\<lambda>i. UploadThrows) RemoveOk"]
    handleFileDelete_present
    [of "''Design/logo.png''" listingState logoItem "storageEnv (\<lambda>i. UploadThrows) RemoveError"]
  by (simp add: listingState_def initial_state_def reportItem_def logoItem_def storageEnv_def
      orElse_def)

subsection \<open>Folder creation\<close>

text \<open>
  What the handler does in the render it runs in: a name that is empty or white space
  only, or that is one of the six names, gets an error notification and the array stays as
  it is; any other name is pushed as it was typed and gets the success notification.
\<close>

lemma handleFolderCreate_rejects:
  "(\<forall>c \<in> set (newFolderName s). isWhiteSpace c) \<or> newFolderName s \<in> set folders \<Longrightarrow>
   fst (handleFolderCreate s) = folders \<and>
   files (snd (handleFolderCreate s)) = files s \<and>
   (\<exists>d. issued s (snd (handleFolderCreate s)) = [Toast ''Error'' d Destructive])"
  by (auto simp add: handleFolderCreate_def trim_empty_iff)

lemma handleFolderCreate_accepts:
  "\<not> (\<forall>c \<in> set (newFolderName s). isWhiteSpace c) \<Longrightarrow> newFolderName s \<notin> set folders \<Longrightarrow>
   fst (handleFolderCreate s) = folders @ [newFolderName s] \<and>
   toasts (issued s (snd (handleFolderCreate s))) =
     [Toast ''Folder Created''
        (''Folder '' @ [CHR 0x22] @ newFolderName s @ [CHR 0x22] @ '' has been created'') Default]"
  by (simp add: handleFolderCreate_def trim_empty_iff)

lemma handleFolderCreate_no_break_space:
  "toasts (issued (setNewFolderName [CHR 0xA0] initial_state)
     (snd (handleFolderCreate (setNewFolderName [CHR 0xA0] initial_state)))) =
     [Toast ''Error'' ''Please enter a folder name'' Destructive]"
  by (simp add: handleFolderCreate_def setNewFolderName_def initial_state_def trim_def
      isWhiteSpace_def)

text \<open>
  Claim C8. An accepted name is to be appended to the folder set, and a name that is
  already in the folder set is to be rejected. The handler pushes the name \<open>Reports\<close> onto
  the array of the render it runs in and shows the success notification; the array of the
  next render is built from the six names again, so \<open>Reports\<close> is neither in the folder
  list nor in the selector, and a second creation of \<open>Reports\<close> is accepted like the first.
\<close>

theorem handleFolderCreate_name_not_kept:
  "fst (handleFolderCreate (setNewFolderName ''Reports'' initial_state)) = folders @ [''Reports''] \<and>
   ''Reports'' \<notin> set folders \<and>
   ''Reports'' \<notin> set selectorItems \<and>
   toasts (effects (snd (handleFolderCreate (setNewFolderName ''Reports''
     (snd (handleFolderCreate (setNewFolderName ''Reports'' initial_state))))))) =
     [Toast ''Folder Created''
        (''Folder '' @ [CHR 0x22] @ ''Reports'' @ [CHR 0x22] @ '' has been created'') Default,
      Toast ''Folder Created''
        (''Folder '' @ [CHR 0x22] @ ''Reports'' @ [CHR 0x22] @ '' has been created'') Default]"
  by (simp add: handleFolderCreate_def setNewFolderName_def initial_state_def trim_def
      isWhiteSpace_def folders_def selectorItems_def)

text \<open>
  Claim C10. A name that differs from a folder name by white space at its ends is
  accepted and pushed as typed, so that the folder set would hold two names that are equal
  after trimming. The handler accepts \<open>'' Design''\<close> and pushes it untrimmed onto the array
  of the render it runs in, next to \<open>''Design''\<close>; the array of the next render is built
  from the six names again and does not hold \<open>'' Design''\<close>.
\<close>

theorem handleFolderCreate_untrimmed_not_kept:
  "fst (handleFolderCreate (setNewFolderName '' Design'' initial_state)) = folders @ ['' Design''] \<and>
   toasts (effects (snd (handleFolderCreate (setNewFolderName '' Design'' initial_state)))) =
     [Toast ''Folder Created''
        (''Folder '' @ [CHR 0x22] @ '' Design'' @ [CHR 0x22] @ '' has been created'') Default] \<and>
   trim '' Design'' = ''Design'' \<and>
   ''Design'' \<in> set folders \<and>
   '' Design'' \<notin> set folders \<and>
   '' Design'' \<notin> set selectorItems"
  by (simp add: handleFolderCreate_def setNewFolderName_def initial_state_def trim_def
      isWhiteSpace_def folders_def selectorItems_def)

subsection \<open>Size formatting\<close>

lemma floorLog1024_bounds:
  "0 < n \<Longrightarrow> 1024 ^ floorLog1024 n \<le> n \<and> n < 1024 ^ (floorLog1024 n + 1)"
proof (induction n rule: floorLog1024.induct)
  case (1 n)
  show ?case
  proof (cases "n < 1024")
    case True
    with "1.prems" show ?thesis by (simp add: floorLog1024.simps)
  next
    case False
    then have pos: "0 < n div 1024" by (simp add: div_greater_zero_iff)
    from "1.IH" [OF False pos]
    have lo: "1024 ^ floorLog1024 (n div 1024) \<le> n div 1024"
      and hi: "n div 1024 < 1024 ^ (floorLog1024 (n div 1024) + 1)" by simp_all
    from lo have "1024 ^ floorLog1024 (n div 1024) * 1024 \<le> n"
      by (simp add: less_eq_div_iff_mult_less_eq)
    moreover from hi have "n < 1024 ^ (floorLog1024 (n div 1024) + 1) * 1024"
      by (simp add: div_less_iff_less_mult)
    moreover from False have "floorLog1024 n = Suc (floorLog1024 (n div 1024))"
      by (subst floorLog1024.simps) simp
    ultimately show ?thesis by (simp add: mult.commute)
  qed
qed

lemma floorLog1024_largest:
  assumes "0 < n"
  shows "1024 ^ j \<le> n \<longleftrightarrow> j \<le> floorLog1024 n"
proof
  assume "1024 ^ j \<le> n"
  with floorLog1024_bounds [OF assms] have "(1024::nat) ^ j < 1024 ^ (floorLog1024 n + 1)"
    by linarith
  then have "j < floorLog1024 n + 1"
    by (simp del: power_Suc)
  then show "j \<le> floorLog1024 n" by simp
next
  assume "j \<le> floorLog1024 n"
  then have "(1024::nat) ^ j \<le> 1024 ^ floorLog1024 n"
    by (simp add: power_increasing)
  with floorLog1024_bounds [OF assms] show "1024 ^ j \<le> n" by linarith
qed

lemma floorLog1024_unit:
  assumes "0 < n" and "n < 1024 ^ 4"
  shows "floorLog1024 n < 4"
proof (rule ccontr)
  assume "\<not> floorLog1024 n < 4"
  then have "4 \<le> floorLog1024 n" by simp
  then have "1024 ^ 4 \<le> n" using floorLog1024_largest [OF assms(1), of 4] by simp
  with assms(2) show False by simp
qed

lemma toFixed2_rounds:
  fixes d n :: nat
  assumes "0 < d"
  shows "2 * d * ((200 * n + d) div (2 * d)) \<le> 200 * n + d \<and>
         200 * n + d < 2 * d * ((200 * n + d) div (2 * d) + 1)"
proof -
  have "0 < 2 * d" using assms by simp
  then have "(200 * n + d) mod (2 * d) < 2 * d" by (rule mod_less_divisor)
  moreover have "2 * d * ((200 * n + d) div (2 * d)) + (200 * n + d) mod (2 * d) = 200 * n + d"
    by simp
  ultimately show ?thesis by (simp add: algebra_simps) 
qed

lemma toFixed2_range:
  fixes d n :: nat
  assumes "0 < d" and "d \<le> n" and "n < 1024 * d"
  shows "100 \<le> (200 * n + d) div (2 * d) \<and> (200 * n + d) div (2 * d) \<le> 102400"
proof
  have "100 * (2 * d) \<le> 200 * n + d" using assms by simp
  then show "100 \<le> (200 * n + d) div (2 * d)"
    using assms(1) by (simp add: less_eq_div_iff_mult_less_eq)
  have "200 * n + d < 102401 * (2 * d)" using assms by simp
  then have "(200 * n + d) div (2 * d) < 102401"
    using assms(1) by (simp add: div_less_iff_less_mult)
  then show "(200 * n + d) div (2 * d) \<le> 102400" by simp
qed

text \<open>
  Claim C3, as the code has it. Zero bytes print as \<open>0 Bytes\<close>, and a count below 1024
  prints as the count itself in \<open>Bytes\<close>. For a positive count below \<open>1024 ^ 4\<close> the unit
  index \<open>i\<close> is within the table and is the largest one with \<open>1024 ^ i \<le> bytes\<close>, so the
  exact quotient \<open>bytes / 1024 ^ i\<close> lies in \<open>[1, 1024)\<close>; the number printed is that quotient
  rounded to the nearest hundredth (a tie goes up) without trailing zeros, and it lies in
  \<open>[1, 1024]\<close>: rounding can reach 1024.
\<close>

theorem formatFileSize_units:
  "formatFileSize 0 = ''0 Bytes'' \<and>
   (bytes < 1024 \<longrightarrow> formatFileSize bytes = showNat bytes @ '' Bytes'') \<and>
   (0 < bytes \<and> bytes < 1024 ^ 4 \<longrightarrow>
      floorLog1024 bytes < length sizes \<and>
      (\<forall>j. 1024 ^ j \<le> bytes \<longleftrightarrow> j \<le> floorLog1024 bytes) \<and>
      bytes < 1024 ^ (floorLog1024 bytes + 1) \<and>
      formatFileSize bytes =
        showHundredths (toFixed2 bytes (floorLog1024 bytes)) @ '' '' @ sizes ! floorLog1024 bytes \<and>
      2 * 1024 ^ floorLog1024 bytes * toFixed2 bytes (floorLog1024 bytes)
        \<le> 200 * bytes + 1024 ^ floorLog1024 bytes \<and>
      200 * bytes + 1024 ^ floorLog1024 bytes
        < 2 * 1024 ^ floorLog1024 bytes * (toFixed2 bytes (floorLog1024 bytes) + 1) \<and>
      100 \<le> toFixed2 bytes (floorLog1024 bytes) \<and>
      toFixed2 bytes (floorLog1024 bytes) \<le> 102400)"
proof (intro conjI impI)
  show "formatFileSize 0 = ''0 Bytes''" by (simp add: formatFileSize_def)
next
  assume small: "bytes < 1024"
  show "formatFileSize bytes = showNat bytes @ '' Bytes''"
  proof (cases "bytes = 0")
    case True
    then show ?thesis by (simp add: formatFileSize_def showNat.simps digit_def)
  next
    case False
    with small show ?thesis
      by (simp add: formatFileSize_def floorLog1024.simps toFixed2_def showHundredths_def
          sizesAt_def sizes_def)
  qed
next
  assume range: "0 < bytes \<and> bytes < 1024 ^ 4"
  then have pos: "0 < bytes" and lt: "bytes < 1024 ^ 4" by simp_all
  have unit: "floorLog1024 bytes < 4" using pos lt by (rule floorLog1024_unit)
  then show "floorLog1024 bytes < length sizes" by (simp add: sizes_def)
  show "\<forall>j. 1024 ^ j \<le> bytes \<longleftrightarrow> j \<le> floorLog1024 bytes"
    using floorLog1024_largest [OF pos] by blast
  show "bytes < 1024 ^ (floorLog1024 bytes + 1)"
    using floorLog1024_bounds [OF pos] by blast
  show "formatFileSize bytes =
        showHundredths (toFixed2 bytes (floorLog1024 bytes)) @ '' '' @ sizes ! floorLog1024 bytes"
    using pos unit by (simp add: formatFileSize_def Let_def sizesAt_def sizes_def)
  have d: "0 < (1024::nat) ^ floorLog1024 bytes" by simp
  show "2 * 1024 ^ floorLog1024 bytes * toFixed2 bytes (floorLog1024 bytes)
        \<le> 200 * bytes + 1024 ^ floorLog1024 bytes"
    using toFixed2_rounds [OF d, of bytes] by (simp add: toFixed2_def)
  show "200 * bytes + 1024 ^ floorLog1024 bytes
        < 2 * 1024 ^ floorLog1024 bytes * (toFixed2 bytes (floorLog1024 bytes) + 1)"
    using toFixed2_rounds [OF d, of bytes] by (simp add: toFixed2_def)
  have "bytes < 1024 * 1024 ^ floorLog1024 bytes"
    using floorLog1024_bounds [OF pos] by simp
  with floorLog1024_bounds [OF pos] d
  have r: "100 \<le> (200 * bytes + 1024 ^ floorLog1024 bytes) div (2 * 1024 ^ floorLog1024 bytes) \<and>
        (200 * bytes + 1024 ^ floorLog1024 bytes) div (2 * 1024 ^ floorLog1024 bytes) \<le> 102400"
    by (intro toFixed2_range) simp_all
  from r show "100 \<le> toFixed2 bytes (floorLog1024 bytes)" by (simp add: toFixed2_def)
  from r show "toFixed2 bytes (floorLog1024 bytes) \<le> 102400" by (simp add: toFixed2_def)
qed

theorem formatFileSize_units_witness:
  "formatFileSize 2048 = ''2 KB'' \<and> formatFileSize 1536 = ''1.5 KB'' \<and>
   formatFileSize 1000 = ''1000 Bytes'' \<and> toFixed2 1234567 (floorLog1024 1234567) = 118"
  using formatFileSize_units [of 2048] formatFileSize_units [of 1536]
    formatFileSize_units [of 1000] formatFileSize_units [of 1234567]
  by (simp add: floorLog1024.simps toFixed2_def showHundredths_def showNat.simps digit_def
      sizes_def)

text \<open>
  The claim as it was stated promises a displayed magnitude below 1024. One byte short of
  a mebibyte is \<open>1023.999\<close> kibibytes, which two decimals round to \<open>1024\<close>.
\<close>

theorem formatFileSize_rounds_up_to_1024:
  "formatFileSize 1048575 = ''1024 KB'' \<and>
   toFixed2 1048575 (floorLog1024 1048575) = 102400"
  by (simp add: formatFileSize_def floorLog1024.simps toFixed2_def showHundredths_def
      showNat.simps digit_def sizesAt_def sizes_def)

text \<open>From \<open>1024 ^ 4\<close> bytes on the unit index is past the table of units.\<close>

lemma formatFileSize_past_table: "formatFileSize (1024 ^ 4) = ''1 undefined''"
  by (simp add: formatFileSize_def floorLog1024.simps toFixed2_def showHundredths_def
      showNat.simps digit_def sizesAt_def sizes_def)

subsection \<open>Upload\<close>

lemma uploadLoop_effects:
  "effects (snd (uploadLoop env len i fs acc s)) =
     effects s @ loopEffects env len (selectedFolder s) i fs"
proof (induction fs arbitrary: i acc s)
  case Nil
  show ?case by simp
next
  case (Cons x rest)
  show ?case
    by (cases "upload_reply env i") (simp_all add: Let_def Cons.IH)
qed

lemma uploadLoop_files: "files (snd (uploadLoop env len i fs acc s)) = files s"
proof (induction fs arbitrary: i acc s)
  case Nil
  show ?case by simp
next
  case (Cons x rest)
  show ?case
    by (cases "upload_reply env i") (simp_all add: Let_def Cons.IH)
qed

lemma uploadLoop_result:
  "\<forall>k<length fs. upload_reply env (i + k) \<noteq> UploadThrows \<Longrightarrow>
   fst (uploadLoop env len i fs acc s) =
     Some (acc @ map (\<lambda>(k, f). uploadedItem env (selectedFolder s) f (dataPath (upload_reply env k)))
                   (filter (\<lambda>(k, f). isData (upload_reply env k)) (enumerate i fs)))"
proof (induction fs arbitrary: i acc s)
  case Nil
  show ?case by simp
next
  case (Cons x rest)
  from Cons.prems have here: "upload_reply env i \<noteq> UploadThrows" by force
  have later: "\<forall>k<length rest. upload_reply env (Suc i + k) \<noteq> UploadThrows"
  proof (intro allI impI)
    fix k assume "k < length rest"
    then have "Suc k < length (x # rest)" by simp
    with Cons.prems have "upload_reply env (i + Suc k) \<noteq> UploadThrows" by blast
    then show "upload_reply env (Suc i + k) \<noteq> UploadThrows" by simp
  qed
  show ?case
  proof (cases "upload_reply env i")
    case (UploadData p)
    then show ?thesis by (simp add: Let_def Cons.IH [OF later])
  next
    case (UploadError m)
    then show ?thesis by (simp add: Let_def Cons.IH [OF later])
  next
    case UploadThrows
    with here show ?thesis by simp
  qed
qed

lemma loopEffects_toasts:
  "\<forall>k<length fs. upload_reply env (i + k) \<noteq> UploadThrows \<Longrightarrow>
   toasts (loopEffects env len sel i fs) =
     map (\<lambda>(k, f). Toast ''Upload Failed''
                     (''Failed to upload '' @ file_name f @ '': '' @ errorMessage (upload_reply env k))
                     Destructive)
       (filter (\<lambda>(k, f). isError (upload_reply env k)) (enumerate i fs))"
proof (induction fs arbitrary: i)
  case Nil
  show ?case by simp
next
  case (Cons x rest)
  from Cons.prems have here: "upload_reply env i \<noteq> UploadThrows" by force
  have later: "\<forall>k<length rest. upload_reply env (Suc i + k) \<noteq> UploadThrows"
  proof (intro allI impI)
    fix k assume "k < length rest"
    then have "Suc k < length (x # rest)" by simp
    with Cons.prems have "upload_reply env (i + Suc k) \<noteq> UploadThrows" by blast
    then show "upload_reply env (Suc i + k) \<noteq> UploadThrows" by simp
  qed
  show ?case
  proof (cases "upload_reply env i")
    case (UploadData p)
    then show ?thesis by (simp add: Cons.IH [OF later])
  next
    case (UploadError m)
    then show ?thesis by (simp add: Cons.IH [OF later])
  next
    case UploadThrows
    with here show ?thesis by simp
  qed
qed

lemma loopEffects_progress:
  "\<forall>k<length fs. upload_reply env (i + k) \<noteq> UploadThrows \<Longrightarrow>
   progressReports (loopEffects env len sel i fs) =
     map (\<lambda>(k, f). SetUploadProgress (of_nat (k + 1) / of_nat len * 100))
       (filter (\<lambda>(k, f). isData (upload_reply env k)) (enumerate i fs))"
proof (induction fs arbitrary: i)
  case Nil
  show ?case by simp
next
  case (Cons x rest)
  from Cons.prems have here: "upload_reply env i \<noteq> UploadThrows" by force
  have later: "\<forall>k<length rest. upload_reply env (Suc i + k) \<noteq> UploadThrows"
  proof (intro allI impI)
    fix k assume "k < length rest"
    then have "Suc k < length (x # rest)" by simp
    with Cons.prems have "upload_reply env (i + Suc k) \<noteq> UploadThrows" by blast
    then show "upload_reply env (Suc i + k) \<noteq> UploadThrows" by simp
  qed
  show ?case
  proof (cases "upload_reply env i")
    case (UploadData p)
    then show ?thesis by (simp add: Cons.IH [OF later])
  next
    case (UploadError m)
    then show ?thesis by (simp add: Cons.IH [OF later])
  next
    case UploadThrows
    with here show ?thesis by simp
  qed
qed

lemma stored_or_rejected:
  assumes "\<forall>k<length fs. upload_reply env k \<noteq> UploadThrows"
  shows "length (storedFiles env fs) + length (rejectedFiles env fs) = length fs"
proof -
  have "rejectedFiles env fs =
        filter (\<lambda>x. \<not> (case x of (k, f) \<Rightarrow> isData (upload_reply env k))) (enumerate 0 fs)"
    unfolding rejectedFiles_def
  proof (rule filter_cong [OF refl])
    fix x assume "x \<in> set (enumerate 0 fs)"
    then have "fst x < length fs" by (auto simp add: in_set_enumerate_eq)
    with assms have "upload_reply env (fst x) \<noteq> UploadThrows" by blast
    then show "(case x of (k, f) \<Rightarrow> isError (upload_reply env k)) =
               (\<not> (case x of (k, f) \<Rightarrow> isData (upload_reply env k)))"
      by (cases x; cases "upload_reply env (fst x)") simp_all
  qed
  then show ?thesis
    using sum_length_filter_compl [of "\<lambda>(k, f). isData (upload_reply env k)" "enumerate 0 fs"]
    by (simp add: storedFiles_def)
qed

lemma handleFileUpload_unfold:
  assumes "fs \<noteq> []"
  shows "handleFileUpload env (Some fs) s =
     (let s1 = setUploadProgress 0 (s\<lparr>isUploading := True\<rparr>);
          r = fst (uploadLoop env (length fs) 0 fs [] s1);
          s2 = snd (uploadLoop env (length fs) 0 fs [] s1);
          s3 = (case r of
                  Some uploadedFiles \<Rightarrow>
                    (toast ''Upload Successful''
                       (''Successfully uploaded '' @ showNat (length uploadedFiles) @ '' file(s)'')
                       Default
                       (emit [OnFileUpload fs] (s2\<lparr>files := uploadedFiles @ files s2\<rparr>)))
                    \<lparr>showUploadArea := False\<rparr>
                | None \<Rightarrow>
                    toast ''Upload Failed'' ''An error occurred during upload'' Destructive
                      (emit [ConsoleError] s2))
      in setUploadProgress 0 (s3\<lparr>isUploading := False\<rparr>))"
  using assms by (simp add: handleFileUpload_def Let_def split_beta)

lemma uploadLoop_thrown:
  "j < length fs \<Longrightarrow> upload_reply env (i + j) = UploadThrows \<Longrightarrow>
   \<forall>k<j. upload_reply env (i + k) \<noteq> UploadThrows \<Longrightarrow>
   fst (uploadLoop env len i fs acc s) = None"
proof (induction fs arbitrary: i j acc s)
  case Nil
  then show ?case by simp
next
  case (Cons x rest)
  show ?case
  proof (cases j)
    case 0
    with Cons.prems show ?thesis by (simp add: Let_def)
  next
    case (Suc j')
    with Cons.prems have here: "upload_reply env i \<noteq> UploadThrows" by force
    from Suc Cons.prems have j': "j' < length rest" by simp
    from Suc Cons.prems have thr: "upload_reply env (Suc i + j') = UploadThrows" by simp
    have before: "\<forall>k<j'. upload_reply env (Suc i + k) \<noteq> UploadThrows"
    proof (intro allI impI)
      fix k assume "k < j'"
      with Suc have "Suc k < j" by simp
      with Cons.prems have "upload_reply env (i + Suc k) \<noteq> UploadThrows" by blast
      then show "upload_reply env (Suc i + k) \<noteq> UploadThrows" by simp
    qed
    show ?thesis
    proof (cases "upload_reply env i")
      case (UploadData p)
      then show ?thesis by (simp add: Let_def Cons.IH [OF j' thr before])
    next
      case (UploadError m)
      then show ?thesis by (simp add: Let_def Cons.IH [OF j' thr before])
    next
      case UploadThrows
      with here show ?thesis by simp
    qed
  qed
qed

lemma loopEffects_toasts_thrown:
  "j < length fs \<Longrightarrow> upload_reply env (i + j) = UploadThrows \<Longrightarrow>
   \<forall>k<j. upload_reply env (i + k) \<noteq> UploadThrows \<Longrightarrow>
   toasts (loopEffects env len sel i fs) =
     map (\<lambda>(k, f). Toast ''Upload Failed''
                     (''Failed to upload '' @ file_name f @ '': '' @ errorMessage (upload_reply env k))
                     Destructive)
       (filter (\<lambda>(k, f). isError (upload_reply env k)) (enumerate i (take j fs)))"
proof (induction fs arbitrary: i j)
  case Nil
  then show ?case by simp
next
  case (Cons x rest)
  show ?case
  proof (cases j)
    case 0
    with Cons.prems show ?thesis by simp
  next
    case (Suc j')
    with Cons.prems have here: "upload_reply env i \<noteq> UploadThrows" by force
    from Suc Cons.prems have j': "j' < length rest" by simp
    from Suc Cons.prems have thr: "upload_reply env (Suc i + j') = UploadThrows" by simp
    have before: "\<forall>k<j'. upload_reply env (Suc i + k) \<noteq> UploadThrows"
    proof (intro allI impI)
      fix k assume "k < j'"
      with Suc have "Suc k < j" by simp
      with Cons.prems have "upload_reply env (i + Suc k) \<noteq> UploadThrows" by blast
      then show "upload_reply env (Suc i + k) \<noteq> UploadThrows" by simp
    qed
    show ?thesis
    proof (cases "upload_reply env i")
      case (UploadData p)
      then show ?thesis by (simp add: Suc Cons.IH [OF j' thr before])
    next
      case (UploadError m)
      then show ?thesis by (simp add: Suc Cons.IH [OF j' thr before])
    next
      case UploadThrows
      with here show ?thesis by simp
    qed
  qed
qed

text \<open>
  A batch each of whose files the storage client stores or rejects with an error: the
  stored records are put in front of the listing, each rejected file has its own failure
  notification, and one success notification carries the number of stored files.
\<close>

lemma handleFileUpload_resolved:
  assumes ne: "fs \<noteq> []" and nt: "\<forall>k<length fs. upload_reply env k \<noteq> UploadThrows"
  shows "files (handleFileUpload env (Some fs) s) =
        map (\<lambda>(k, f). uploadedItem env (selectedFolder s) f (dataPath (upload_reply env k)))
          (storedFiles env fs) @ files s \<and>
      length (files (handleFileUpload env (Some fs) s)) =
        length (storedFiles env fs) + length (files s) \<and>
      toasts (issued s (handleFileUpload env (Some fs) s)) =
        map (\<lambda>(k, f). Toast ''Upload Failed''
                        (''Failed to upload '' @ file_name f @ '': '' @ errorMessage (upload_reply env k))
                        Destructive)
          (rejectedFiles env fs) @
        [Toast ''Upload Successful''
           (''Successfully uploaded '' @ showNat (length (storedFiles env fs)) @ '' file(s)'')
           Default] \<and>
      length (storedFiles env fs) + length (rejectedFiles env fs) = length fs"
proof (intro conjI)
  from nt have nt0: "\<forall>k<length fs. upload_reply env (0 + k) \<noteq> UploadThrows" by simp
  let ?s1 = "setUploadProgress 0 (s\<lparr>isUploading := True\<rparr>)"
  have res: "fst (uploadLoop env (length fs) 0 fs [] ?s1) =
      Some (map (\<lambda>(k, f). uploadedItem env (selectedFolder s) f (dataPath (upload_reply env k)))
              (storedFiles env fs))"
    using uploadLoop_result [OF nt0, of "length fs" "[]" ?s1]
    by (simp add: storedFiles_def)
  have fl: "files (snd (uploadLoop env (length fs) 0 fs [] ?s1)) = files s"
    by (simp add: uploadLoop_files)
  have ef: "effects (snd (uploadLoop env (length fs) 0 fs [] ?s1)) =
      effects s @ SetUploadProgress 0 # loopEffects env (length fs) (selectedFolder s) 0 fs"
    by (simp add: uploadLoop_effects)
  show files': "files (handleFileUpload env (Some fs) s) =
        map (\<lambda>(k, f). uploadedItem env (selectedFolder s) f (dataPath (upload_reply env k)))
          (storedFiles env fs) @ files s"
    by (simp add: handleFileUpload_unfold [OF ne] Let_def res fl)
  show "length (files (handleFileUpload env (Some fs) s)) =
        length (storedFiles env fs) + length (files s)"
    by (simp add: files')
  have "effects (handleFileUpload env (Some fs) s) =
      effects s @ (SetUploadProgress 0 # loopEffects env (length fs) (selectedFolder s) 0 fs @
        [OnFileUpload fs,
         Toast ''Upload Successful''
           (''Successfully uploaded '' @ showNat (length (storedFiles env fs)) @ '' file(s)'') Default,
         SetUploadProgress 0])"
    by (simp add: handleFileUpload_unfold [OF ne] Let_def res ef)
  then have "issued s (handleFileUpload env (Some fs) s) =
      SetUploadProgress 0 # loopEffects env (length fs) (selectedFolder s) 0 fs @
        [OnFileUpload fs,
         Toast ''Upload Successful''
           (''Successfully uploaded '' @ showNat (length (storedFiles env fs)) @ '' file(s)'') Default,
         SetUploadProgress 0]"
    by (rule issued_append)
  then show "toasts (issued s (handleFileUpload env (Some fs) s)) =
        map (\<lambda>(k, f). Toast ''Upload Failed''
                        (''Failed to upload '' @ file_name f @ '': '' @ errorMessage (upload_reply env k))
                        Destructive)
          (rejectedFiles env fs) @
        [Toast ''Upload Successful''
           (''Successfully uploaded '' @ showNat (length (storedFiles env fs)) @ '' file(s)'')
           Default]"
    by (simp add: loopEffects_toasts [OF nt0] rejectedFiles_def)
  show "length (storedFiles env fs) + length (rejectedFiles env fs) = length fs"
    using nt by (rule stored_or_rejected)
qed

text \<open>
  A batch in which the call for the file at position \<open>j\<close> is the first to throw: the
  handler leaves the loop for its \<open>catch\<close> branch. The listing stays as it was, also
  without the records of the files stored before; the files rejected before have their
  failure notifications, and the last notification is the general one of the branch.
\<close>

lemma handleFileUpload_thrown:
  assumes j: "j < length fs" and thr: "upload_reply env j = UploadThrows"
    and before: "\<forall>k<j. upload_reply env k \<noteq> UploadThrows"
  shows "files (handleFileUpload env (Some fs) s) = files s \<and>
      toasts (issued s (handleFileUpload env (Some fs) s)) =
        map (\<lambda>(k, f). Toast ''Upload Failed''
                        (''Failed to upload '' @ file_name f @ '': '' @ errorMessage (upload_reply env k))
                        Destructive)
          (rejectedFiles env (take j fs)) @
        [Toast ''Upload Failed'' ''An error occurred during upload'' Destructive]"
proof (intro conjI)
  from j have ne: "fs \<noteq> []" by auto
  from thr have thr0: "upload_reply env (0 + j) = UploadThrows" by simp
  from before have before0: "\<forall>k<j. upload_reply env (0 + k) \<noteq> UploadThrows" by simp
  let ?s1 = "setUploadProgress 0 (s\<lparr>isUploading := True\<rparr>)"
  have res: "fst (uploadLoop env (length fs) 0 fs [] ?s1) = None"
    using j thr0 before0 by (rule uploadLoop_thrown)
  have fl: "files (snd (uploadLoop env (length fs) 0 fs [] ?s1)) = files s"
    by (simp add: uploadLoop_files)
  have ef: "effects (snd (uploadLoop env (length fs) 0 fs [] ?s1)) =
      effects s @ SetUploadProgress 0 # loopEffects env (length fs) (selectedFolder s) 0 fs"
    by (simp add: uploadLoop_effects)
  show "files (handleFileUpload env (Some fs) s) = files s"
    by (simp add: handleFileUpload_unfold [OF ne] Let_def res fl)
  have "effects (handleFileUpload env (Some fs) s) =
      effects s @ (SetUploadProgress 0 # loopEffects env (length fs) (selectedFolder s) 0 fs @
        [ConsoleError,
         Toast ''Upload Failed'' ''An error occurred during upload'' Destructive,
         SetUploadProgress 0])"
    by (simp add: handleFileUpload_unfold [OF ne] Let_def res ef)
  then have "issued s (handleFileUpload env (Some fs) s) =
      SetUploadProgress 0 # loopEffects env (length fs) (selectedFolder s) 0 fs @
        [ConsoleError,
         Toast ''Upload Failed'' ''An error occurred during upload'' Destructive,
         SetUploadProgress 0]"
    by (rule issued_append)
  then show "toasts (issued s (handleFileUpload env (Some fs) s)) =
        map (\<lambda>(k, f). Toast ''Upload Failed''
                        (''Failed to upload '' @ file_name f @ '': '' @ errorMessage (upload_reply env k))
                        Destructive)
          (rejectedFiles env (take j fs)) @
        [Toast ''Upload Failed'' ''An error occurred during upload'' Destructive]"
    by (simp add: loopEffects_toasts_thrown [OF j thr0 before0] rejectedFiles_def)
qed

lemma handleFileUpload_no_selection:
  "handleFileUpload env (Some []) s = s \<and> handleFileUpload env None s = s"
  by (simp add: handleFileUpload_def)

text \<open>
  Claim C1, as the code has it. Take a batch of one file or more. When the storage client
  answers every upload, storing some files and rejecting the others with an error, the
  listing after the handler is the records of the stored files, in the order of the batch,
  followed by the listing there was, so it has grown by the number of stored files; the
  notifications shown are one failure notification for each rejected file, naming the
  file, and then exactly one success notification with the number of stored files, which
  may be zero. When an upload throws, the batch ends there: the files rejected until then
  have their failure notifications, one general failure notification follows, and there is
  no success notification.
\<close>

theorem handleFileUpload_batch:
  "(fs \<noteq> [] \<and> (\<forall>k<length fs. upload_reply env k \<noteq> UploadThrows) \<longrightarrow>
      files (handleFileUpload env (Some fs) s) =
        map (\<lambda>(k, f). uploadedItem env (selectedFolder s) f (dataPath (upload_reply env k)))
          (storedFiles env fs) @ files s \<and>
      length (files (handleFileUpload env (Some fs) s)) =
        length (storedFiles env fs) + length (files s) \<and>
      toasts (issued s (handleFileUpload env (Some fs) s)) =
        map (\<lambda>(k, f). Toast ''Upload Failed''
                        (''Failed to upload '' @ file_name f @ '': '' @ errorMessage (upload_reply env k))
                        Destructive)
          (rejectedFiles env fs) @
        [Toast ''Upload Successful''
           (''Successfully uploaded '' @ showNat (length (storedFiles env fs)) @ '' file(s)'')
           Default] \<and>
      length (storedFiles env fs) + length (rejectedFiles env fs) = length fs) \<and>
   (j < length fs \<and> upload_reply env j = UploadThrows \<and>
    (\<forall>k<j. upload_reply env k \<noteq> UploadThrows) \<longrightarrow>
      toasts (issued s (handleFileUpload env (Some fs) s)) =
        map (\<lambda>(k, f). Toast ''Upload Failed''
                        (''Failed to upload '' @ file_name f @ '': '' @ errorMessage (upload_reply env k))
                        Destructive)
          (rejectedFiles env (take j fs)) @
        [Toast ''Upload Failed'' ''An error occurred during upload'' Destructive])"
proof (rule conjI; rule impI)
  assume "fs \<noteq> [] \<and> (\<forall>k<length fs. upload_reply env k \<noteq> UploadThrows)"
  then have ne: "fs \<noteq> []" and nt: "\<forall>k<length fs. upload_reply env k \<noteq> UploadThrows"
    by simp_all
  show "files (handleFileUpload env (Some fs) s) =
        map (\<lambda>(k, f). uploadedItem env (selectedFolder s) f (dataPath (upload_reply env k)))
          (storedFiles env fs) @ files s \<and>
      length (files (handleFileUpload env (Some fs) s)) =
        length (storedFiles env fs) + length (files s) \<and>
      toasts (issued s (handleFileUpload env (Some fs) s)) =
        map (\<lambda>(k, f). Toast ''Upload Failed''
                        (''Failed to upload '' @ file_name f @ '': '' @ errorMessage (upload_reply env k))
                        Destructive)
          (rejectedFiles env fs) @
        [Toast ''Upload Successful''
           (''Successfully uploaded '' @ showNat (length (storedFiles env fs)) @ '' file(s)'')
           Default] \<and>
      length (storedFiles env fs) + length (rejectedFiles env fs) = length fs"
    using ne nt by (rule handleFileUpload_resolved)
next
  assume "j < length fs \<and> upload_reply env j = UploadThrows \<and>
    (\<forall>k<j. upload_reply env k \<noteq> UploadThrows)"
  then have j: "j < length fs" and thr: "upload_reply env j = UploadThrows"
    and before: "\<forall>k<j. upload_reply env k \<noteq> UploadThrows"
    by simp_all
  show "toasts (issued s (handleFileUpload env (Some fs) s)) =
        map (\<lambda>(k, f). Toast ''Upload Failed''
                        (''Failed to upload '' @ file_name f @ '': '' @ errorMessage (upload_reply env k))
                        Destructive)
          (rejectedFiles env (take j fs)) @
        [Toast ''Upload Failed'' ''An error occurred during upload'' Destructive]"
    using handleFileUpload_thrown [OF j thr before] by simp
qed

theorem handleFileUpload_batch_witness:
  "length (files (handleFileUpload (storageEnv firstStored RemoveOk)
      (Some [reportFile, notesFile]) listingState)) = 3 \<and>
   toasts (issued listingState (handleFileUpload (storageEnv firstStored RemoveOk)
      (Some [reportFile, notesFile]) listingState)) =
     [Toast ''Upload Failed'' ''Failed to upload notes.txt: The resource already exists'' Destructive,
      Toast ''Upload Successful'' ''Successfully uploaded 1 file(s)'' Default] \<and>
   files (handleFileUpload (storageEnv noneStored RemoveOk)
      (Some [reportFile, notesFile]) listingState) = [reportItem, logoItem] \<and>
   toasts (issued listingState (handleFileUpload (storageEnv noneStored RemoveOk)
      (Some [reportFile, notesFile]) listingState)) =
     [Toast ''Upload Failed'' ''Failed to upload report.pdf: The resource already exists'' Destructive,
      Toast ''Upload Failed'' ''Failed to upload notes.txt: The resource already exists'' Destructive,
      Toast ''Upload Successful'' ''Successfully uploaded 0 file(s)'' Default] \<and>
   toasts (issued listingState (handleFileUpload (storageEnv secondThrows RemoveOk)
      (Some [reportFile, notesFile]) listingState)) =
     [Toast ''Upload Failed'' ''An error occurred during upload'' Destructive]"
  using handleFileUpload_batch
      [of "[reportFile, notesFile]" "storageEnv firstStored RemoveOk" listingState 0]
    handleFileUpload_batch
      [of "[reportFile, notesFile]" "storageEnv noneStored RemoveOk" listingState 0]
    handleFileUpload_batch
      [of "[reportFile, notesFile]" "storageEnv secondThrows RemoveOk" listingState 1]
  by (simp add: storedFiles_def rejectedFiles_def storageEnv_def firstStored_def noneStored_def
      secondThrows_def listingState_def reportFile_def notesFile_def showNat.simps digit_def)

text \<open>
  The claim as it was stated counts a file whose upload throws among the failed ones. In
  the batch of \<open>report.pdf\<close> and \<open>notes.txt\<close>, the storage client stores the first file and
  throws at the second: one file of two has succeeded, and the listing has not grown, no
  notification names \<open>notes.txt\<close>, and no success notification is shown.
\<close>

theorem handleFileUpload_thrown_upload:
  "storageCalls (issued listingState (handleFileUpload (storageEnv secondThrows RemoveOk)
      (Some [reportFile, notesFile]) listingState)) =
     [StorageUpload ''report.pdf'', StorageUpload ''notes.txt''] \<and>
   files (handleFileUpload (storageEnv secondThrows RemoveOk)
      (Some [reportFile, notesFile]) listingState) = files listingState \<and>
   toasts (issued listingState (handleFileUpload (storageEnv secondThrows RemoveOk)
      (Some [reportFile, notesFile]) listingState)) =
     [Toast ''Upload Failed'' ''An error occurred during upload'' Destructive]"
  by (simp add: handleFileUpload_def Let_def storageEnv_def secondThrows_def listingState_def
      reportFile_def notesFile_def destination_def initial_state_def)

text \<open>
  The progress reports of a batch: the reset at the start, one report for each file the
  storage client stored, with the position of that file in the batch, and the reset at
  the end.
\<close>

lemma handleFileUpload_progress:
  assumes "fs \<noteq> []" and "\<forall>k<length fs. upload_reply env k \<noteq> UploadThrows"
  shows "progressReports (issued s (handleFileUpload env (Some fs) s)) =
     SetUploadProgress 0 #
     map (\<lambda>(k, f). SetUploadProgress (of_nat (k + 1) / of_nat (length fs) * 100))
       (storedFiles env fs) @
     [SetUploadProgress 0]"
proof -
  from assms(2) have nt0: "\<forall>k<length fs. upload_reply env (0 + k) \<noteq> UploadThrows" by simp
  let ?s1 = "setUploadProgress 0 (s\<lparr>isUploading := True\<rparr>)"
  have res: "fst (uploadLoop env (length fs) 0 fs [] ?s1) =
      Some (map (\<lambda>(k, f). uploadedItem env (selectedFolder s) f (dataPath (upload_reply env k)))
              (storedFiles env fs))"
    using uploadLoop_result [OF nt0, of "length fs" "[]" ?s1]
    by (simp add: storedFiles_def)
  have ef: "effects (snd (uploadLoop env (length fs) 0 fs [] ?s1)) =
      effects s @ SetUploadProgress 0 # loopEffects env (length fs) (selectedFolder s) 0 fs"
    by (simp add: uploadLoop_effects)
  have "effects (handleFileUpload env (Some fs) s) =
      effects s @ (SetUploadProgress 0 # loopEffects env (length fs) (selectedFolder s) 0 fs @
        [OnFileUpload fs,
         Toast ''Upload Successful''
           (''Successfully uploaded '' @ showNat (length (storedFiles env fs)) @ '' file(s)'') Default,
         SetUploadProgress 0])"
    by (simp add: handleFileUpload_unfold [OF assms(1)] Let_def res ef)
  then have "issued s (handleFileUpload env (Some fs) s) =
      SetUploadProgress 0 # loopEffects env (length fs) (selectedFolder s) 0 fs @
        [OnFileUpload fs,
         Toast ''Upload Successful''
           (''Successfully uploaded '' @ showNat (length (storedFiles env fs)) @ '' file(s)'') Default,
         SetUploadProgress 0]"
    by (rule issued_append)
  then show ?thesis
    by (simp add: loopEffects_progress [OF nt0] storedFiles_def)
qed

text \<open>
  Claim C7. Progress is to be reported after each processed file, stored or rejected, as
  the share of the batch processed so far. The loop leaves the iteration of a rejected
  file before it reports: in a batch of two files whose second is rejected the report of
  100 is missing, and in a batch of one rejected file nothing is reported but the resets.
\<close>

theorem handleFileUpload_no_progress_after_failure:
  "progressReports (issued listingState
     (handleFileUpload (storageEnv firstStored RemoveOk) (Some [reportFile, notesFile]) listingState)) =
     [SetUploadProgress 0, SetUploadProgress 50, SetUploadProgress 0] \<and>
   progressReports (issued listingState
     (handleFileUpload (storageEnv noneStored RemoveOk) (Some [reportFile]) listingState)) =
     [SetUploadProgress 0, SetUploadProgress 0]"
  by (simp add: handleFileUpload_def Let_def storageEnv_def firstStored_def noneStored_def
      listingState_def reportFile_def notesFile_def)

subsection \<open>Folder of a record\<close>

lemma hd_split: "hd (split sep p) = takeWhile (\<lambda>c. c \<noteq> sep) p"
proof (induction p)
  case Nil
  show ?case by simp
next
  case (Cons c cs)
  show ?case
  proof (cases "c = sep")
    case True
    then show ?thesis by simp
  next
    case False
    obtain q qs where q: "split sep cs = q # qs"
      using split_not_Nil [of sep cs] by (cases "split sep cs") auto
    with Cons.IH have "q = takeWhile (\<lambda>c. c \<noteq> sep) cs" by simp
    with False q show ?thesis by simp
  qed
qed

lemma length_split: "length (split sep p) = Suc (length (filter (\<lambda>c. c = sep) p))"
proof (induction p)
  case Nil
  show ?case by simp
next
  case (Cons c cs)
  obtain q qs where q: "split sep cs = q # qs"
    using split_not_Nil [of sep cs] by (cases "split sep cs") auto
  with Cons.IH show ?case by auto
qed

lemma getFolderFromPath_pathFolder: "getFolderFromPath p = pathFolder p"
proof -
  have "1 < length (split CHR ''/'' p) \<longleftrightarrow> CHR ''/'' \<in> set p"
    by (simp add: length_split filter_empty_conv)
  then show ?thesis
    by (simp add: getFolderFromPath_def pathFolder_def Let_def hd_split)
qed

lemma pathFolder_no_separator: "CHR ''/'' \<notin> set p \<Longrightarrow> pathFolder p = ''Root''"
  by (simp add: pathFolder_def)

lemma takeWhile_up_to_separator:
  "sep \<notin> set a \<Longrightarrow> takeWhile (\<lambda>c. c \<noteq> sep) (a @ sep # b) = a"
  by (induction a) auto

lemma pathFolder_prefix: "CHR ''/'' \<notin> set a \<Longrightarrow> pathFolder (a @ ''/'' @ b) = a"
  by (simp add: pathFolder_def takeWhile_up_to_separator)

lemma uploadedItem_folderDerived:
  assumes "CHR ''/'' \<notin> set sel"
    and "sel = ''all'' \<longrightarrow> CHR ''/'' \<notin> set (file_name f)"
  shows "folderDerived (uploadedItem env sel f (destination sel f))"
proof (cases "sel = ''all''")
  case True
  with assms(2) have "pathFolder (file_name f) = ''Root''"
    by (simp add: pathFolder_no_separator)
  with True show ?thesis
    by (simp add: folderDerived_def uploadedItem_def destination_def)
next
  case False
  from assms(1) have "pathFolder (sel @ ''/'' @ file_name f) = sel"
    by (rule pathFolder_prefix)
  with False show ?thesis
    by (simp add: folderDerived_def uploadedItem_def destination_def)
qed

lemma uploadLoop_folderDerived:
  assumes "CHR ''/'' \<notin> set (selectedFolder s)"
    and "selectedFolder s = ''all'' \<longrightarrow> (\<forall>f \<in> set fs. CHR ''/'' \<notin> set (file_name f))"
    and "\<forall>k<length fs. \<forall>p. upload_reply env (i + k) = UploadData p \<longrightarrow>
           p = destination (selectedFolder s) (fs ! k)"
    and "\<forall>f \<in> set acc. folderDerived f"
    and "fst (uploadLoop env len i fs acc s) = Some ups"
  shows "\<forall>f \<in> set ups. folderDerived f"
  using assms
proof (induction fs arbitrary: i acc s)
  case Nil
  then show ?case by simp
next
  case (Cons x rest)
  have later: "\<forall>k<length rest. \<forall>p. upload_reply env (Suc i + k) = UploadData p \<longrightarrow>
           p = destination (selectedFolder s) (rest ! k)"
  proof (intro allI impI)
    fix k p assume k: "k < length rest" and p: "upload_reply env (Suc i + k) = UploadData p"
    from k have "Suc k < length (x # rest)" by simp
    moreover from p have "upload_reply env (i + Suc k) = UploadData p" by simp
    ultimately have "p = destination (selectedFolder s) ((x # rest) ! Suc k)"
      using Cons.prems(3) by blast
    then show "p = destination (selectedFolder s) (rest ! k)" by simp
  qed
  from Cons.prems(2)
  have names: "selectedFolder s = ''all'' \<longrightarrow> (\<forall>f \<in> set rest. CHR ''/'' \<notin> set (file_name f))"
    and name: "selectedFolder s = ''all'' \<longrightarrow> CHR ''/'' \<notin> set (file_name x)"
    by simp_all
  show ?case
  proof (cases "upload_reply env i")
    case (UploadData p)
    have "0 < length (x # rest)" by simp
    moreover from UploadData have "upload_reply env (i + 0) = UploadData p" by simp
    ultimately have "p = destination (selectedFolder s) ((x # rest) ! 0)"
      using Cons.prems(3) by blast
    then have p: "p = destination (selectedFolder s) x" by simp
    have item: "folderDerived (uploadedItem env (selectedFolder s) x p)"
      unfolding p using Cons.prems(1) name by (rule uploadedItem_folderDerived)
    let ?s' = "setUploadProgress (of_nat (i + 1) / of_nat len * 100)
                 (emit [StorageUpload (destination (selectedFolder s) x)] s)"
    let ?acc' = "acc @ [uploadedItem env (selectedFolder s) x p]"
    have run: "fst (uploadLoop env len (Suc i) rest ?acc' ?s') = Some ups"
      using Cons.prems(5) UploadData by (simp add: Let_def)
    have acc': "\<forall>f \<in> set ?acc'. folderDerived f"
      using Cons.prems(4) item by simp
    show ?thesis
      by (rule Cons.IH [of ?s' "Suc i" ?acc']) (use Cons.prems(1) names later acc' run in simp_all)
  next
    case (UploadError m)
    let ?s' = "toast ''Upload Failed'' (''Failed to upload '' @ file_name x @ '': '' @ m) Destructive
                 (emit [ConsoleError] (emit [StorageUpload (destination (selectedFolder s) x)] s))"
    have run: "fst (uploadLoop env len (Suc i) rest acc ?s') = Some ups"
      using Cons.prems(5) UploadError by (simp add: Let_def)
    show ?thesis
      by (rule Cons.IH [of ?s' "Suc i" acc]) (use Cons.prems(1,4) names later run in simp_all)
  next
    case UploadThrows
    with Cons.prems(5) show ?thesis by (simp add: Let_def)
  qed
qed

lemma loadedItem_folderDerived: "folderDerived (loadedItem env file)"
  by (simp add: folderDerived_def loadedItem_def getFolderFromPath_pathFolder)

lemma loadFiles_folderDerived:
  "\<forall>f \<in> set (files s). folderDerived f \<Longrightarrow>
   \<forall>f \<in> set (files (loadFiles env s)). folderDerived f"
  by (cases "list_reply env") (auto simp add: loadFiles_def Let_def loadedItem_folderDerived)

lemma handleFileDelete_files_subset:
  "set (files (handleFileDelete env fileId s)) \<subseteq> set (files s)"
  by (auto simp add: handleFileDelete_def Let_def split: option.splits remove_response.splits)

lemma handleFolderCreate_files: "files (snd (handleFolderCreate s)) = files s"
  by (simp add: handleFolderCreate_def)

lemma handleFolderCreate_selectedFolder:
  "selectedFolder (snd (handleFolderCreate s)) = selectedFolder s"
  by (simp add: handleFolderCreate_def)

lemma loadFiles_selectedFolder: "selectedFolder (loadFiles env s) = selectedFolder s"
  by (cases "list_reply env") (simp_all add: loadFiles_def Let_def)

lemma handleFileDelete_selectedFolder:
  "selectedFolder (handleFileDelete env fileId s) = selectedFolder s"
  by (simp add: handleFileDelete_def Let_def split: option.splits remove_response.splits)

lemma uploadLoop_selectedFolder:
  "selectedFolder (snd (uploadLoop env len i fs acc s)) = selectedFolder s"
proof (induction fs arbitrary: i acc s)
  case Nil
  show ?case by simp
next
  case (Cons x rest)
  show ?case
    by (cases "upload_reply env i") (simp_all add: Let_def Cons.IH)
qed

lemma handleFileUpload_selectedFolder:
  "selectedFolder (handleFileUpload env (Some fs) s) = selectedFolder s"
proof (cases "fs = []")
  case True
  then show ?thesis by (simp add: handleFileUpload_def)
next
  case False
  show ?thesis
    by (cases "fst (uploadLoop env (length fs) 0 fs [] (setUploadProgress 0 (s\<lparr>isUploading := True\<rparr>)))")
      (simp_all add: handleFileUpload_unfold [OF False] Let_def uploadLoop_selectedFolder)
qed

text \<open>
  An upload keeps the folders of the listing derived from the paths when the selected
  folder has no separator in it, when under the selection \<open>all\<close> no file name has one,
  and when the storage client answers the destination key.
\<close>

lemma handleFileUpload_folderDerived:
  assumes old: "\<forall>f \<in> set (files s). folderDerived f"
    and sel: "CHR ''/'' \<notin> set (selectedFolder s)"
    and names: "selectedFolder s = ''all'' \<longrightarrow> (\<forall>f \<in> set fs. CHR ''/'' \<notin> set (file_name f))"
    and keys: "\<forall>k<length fs. \<forall>q. upload_reply env k = UploadData q \<longrightarrow>
       q = destination (selectedFolder s) (fs ! k)"
  shows "\<forall>f \<in> set (files (handleFileUpload env (Some fs) s)). folderDerived f"
proof (cases "fs = []")
  case True
  with old show ?thesis by (simp add: handleFileUpload_def)
next
  case False
  let ?s1 = "setUploadProgress 0 (s\<lparr>isUploading := True\<rparr>)"
  show ?thesis
  proof (cases "fst (uploadLoop env (length fs) 0 fs [] ?s1)")
    case None
    with old show ?thesis
      by (simp add: handleFileUpload_unfold [OF False] Let_def uploadLoop_files)
  next
    case (Some ups)
    have "\<forall>f \<in> set ups. folderDerived f"
    proof (rule uploadLoop_folderDerived [of ?s1 fs env 0 "[]" "length fs" ups])
      show "CHR ''/'' \<notin> set (selectedFolder ?s1)" using sel by simp
      show "selectedFolder ?s1 = ''all'' \<longrightarrow> (\<forall>f \<in> set fs. CHR ''/'' \<notin> set (file_name f))"
        using names by simp
      show "\<forall>k<length fs. \<forall>p. upload_reply env (0 + k) = UploadData p \<longrightarrow>
         p = destination (selectedFolder ?s1) (fs ! k)"
        using keys by simp
      show "\<forall>f \<in> set []. folderDerived f" by simp
      show "fst (uploadLoop env (length fs) 0 fs [] ?s1) = Some ups" by (rule Some)
    qed
    with old Some show ?thesis
      by (auto simp add: handleFileUpload_unfold [OF False] Let_def uploadLoop_files)
  qed
qed

lemma selectorItems_no_separator: "v \<in> set selectorItems \<Longrightarrow> CHR ''/'' \<notin> set v"
  by (auto simp add: selectorItems_def folders_def)

text \<open>
  In every state the component reaches, the selection is an item of the folder selector
  and every record of the listing holds the folder of its path.
\<close>

lemma reachable_invariant:
  "reachable s \<Longrightarrow>
   selectedFolder s \<in> set selectorItems \<and> (\<forall>f \<in> set (files s). folderDerived f)"
proof (induction rule: reachable.induct)
  case mounted
  show ?case by (simp add: initial_state_def selectorItems_def)
next
  case (loaded s env)
  then show ?case
    using loadFiles_folderDerived [of s env] by (simp add: loadFiles_selectedFolder)
next
  case (uploaded s fs env)
  from uploaded.IH have sel: "CHR ''/'' \<notin> set (selectedFolder s)"
    by (simp add: selectorItems_no_separator)
  from uploaded.hyps(2)
  have names: "selectedFolder s = ''all'' \<longrightarrow> (\<forall>f \<in> set fs. CHR ''/'' \<notin> set (file_name f))"
    by (simp add: list_all_iff)
  from uploaded.IH have old: "\<forall>f \<in> set (files s). folderDerived f" by simp
  have "\<forall>f \<in> set (files (handleFileUpload env (Some fs) s)). folderDerived f"
    using old sel names uploaded.hyps(3) by (rule handleFileUpload_folderDerived)
  with uploaded.IH show ?case by (simp add: handleFileUpload_selectedFolder)
next
  case (deleted s env fileId)
  then show ?case
    using handleFileDelete_files_subset [of env fileId s]
    by (auto simp add: handleFileDelete_selectedFolder)
next
  case (folderSubmitted s)
  then show ?case by (simp add: handleFolderCreate_files handleFolderCreate_selectedFolder)
next
  case (folderSelected s v)
  then show ?case by (simp add: setSelectedFolder_def)
next
  case (queryTyped s v)
  then show ?case by (simp add: setSearchQuery_def)
next
  case (folderNameTyped s v)
  then show ?case by (simp add: setNewFolderName_def)
qed

text \<open>
  Claim C9. \<open>getFolderFromPath\<close> gives the first segment of a path that contains the
  separator and \<open>Root\<close> otherwise, and every record of the listing, made by the listing
  loader or by an upload, holds the folder that its path gives: in every state that the
  component reaches by its events, with a storage client that stores a file under the key
  it is given and with files named by base names.
\<close>

theorem folder_of_listed_records:
  "getFolderFromPath p = pathFolder p \<and>
   (reachable s \<longrightarrow> (\<forall>f \<in> set (files s). folderDerived f))"
  by (simp add: getFolderFromPath_pathFolder reachable_invariant)

theorem folder_of_listed_records_witness:
  "getFolderFromPath ''Documents/report.pdf'' = ''Documents'' \<and>
   getFolderFromPath ''report.pdf'' = ''Root'' \<and>
   map folder (files (handleFileUpload (storageEnv documentsStored RemoveOk) (Some [reportFile])
      (setSelectedFolder ''Documents'' initial_state))) = [Some ''Documents''] \<and>
   map path (files (handleFileUpload (storageEnv documentsStored RemoveOk) (Some [reportFile])
      (setSelectedFolder ''Documents'' initial_state))) = [Some ''Documents/report.pdf''] \<and>
   list_all folderDerived
     (files (handleFileUpload (storageEnv documentsStored RemoveOk) (Some [reportFile])
        (setSelectedFolder ''Documents'' initial_state)))"
proof -
  have r: "reachable (handleFileUpload (storageEnv documentsStored RemoveOk) (Some [reportFile])
      (setSelectedFolder ''Documents'' initial_state))"
    by (rule reachable.uploaded [OF reachable.folderSelected [OF reachable.mounted]])
      (simp_all add: selectorItems_def folders_def reportFile_def storageEnv_def
        documentsStored_def destination_def setSelectedFolder_def)
  have e: "map folder (files (handleFileUpload (storageEnv documentsStored RemoveOk) (Some [reportFile])
      (setSelectedFolder ''Documents'' initial_state))) = [Some ''Documents''] \<and>
   map path (files (handleFileUpload (storageEnv documentsStored RemoveOk) (Some [reportFile])
      (setSelectedFolder ''Documents'' initial_state))) = [Some ''Documents/report.pdf'']"
    by (simp add: handleFileUpload_def Let_def storageEnv_def documentsStored_def
        reportFile_def uploadedItem_def setSelectedFolder_def initial_state_def)
  show ?thesis
    using folder_of_listed_records [of "''Documents/report.pdf''"
        "handleFileUpload (storageEnv documentsStored RemoveOk) (Some [reportFile])
          (setSelectedFolder ''Documents'' initial_state)"]
      folder_of_listed_records [of "''report.pdf''" initial_state]
      r e
    by (simp add: pathFolder_def list_all_iff)
qed

end
